theory Spec2Isabelle
  imports Main
begin

section \<open>Data model (library/models.py)\<close>

text \<open>
  The three Django models become records; a table is the list of its rows in insertion
  order. Primary keys and foreign keys are natural numbers, timestamps are integers
  counting microseconds (the resolution of a Python \<open>datetime\<close>), and
  \<open>available_copies\<close> is an unbounded Python integer.
\<close>

record User =
  user_pk :: nat
  username :: string
  role :: string

record Book =
  book_pk :: nat
  title :: string
  author :: string
  isbn :: string
  published_date :: "int option"
  pages :: int
  available_copies :: int

record BorrowedBook =
  loan_pk :: nat
  user_id :: nat
  book_id :: nat
  borrowed_at :: int
  due_date :: int
  returned :: bool

record database =
  books :: "Book list"
  loans :: "BorrowedBook list"

text \<open>\<open>timedelta(days=d)\<close> in microseconds.\<close>

definition timedelta_days :: "int \<Rightarrow> int" where
  "timedelta_days d = d * 86400000000"

text \<open>
  \<open>get_due_date\<close> reads the clock itself (\<open>now()\<close>); the reading is the argument.
\<close>

definition get_due_date :: "int \<Rightarrow> int" where
  "get_due_date now = now + timedelta_days 15"

section \<open>The object manager\<close>

text \<open>
  \<open>Model.objects.get\<close> returns the single matching row, raises \<open>DoesNotExist\<close> when no
  row matches and \<open>MultipleObjectsReturned\<close> when more than one does.
\<close>

datatype 'a lookup = DoesNotExist | MultipleObjectsReturned | Found 'a

definition objects_get :: "('a \<Rightarrow> bool) \<Rightarrow> 'a list \<Rightarrow> 'a lookup" where
  "objects_get P rows =
     (case filter P rows of
        [] \<Rightarrow> DoesNotExist
      | [x] \<Rightarrow> Found x
      | _ # _ # _ \<Rightarrow> MultipleObjectsReturned)"

text \<open>The key given to a new row: one more than the largest key in the table.\<close>

definition fresh_pk :: "nat list \<Rightarrow> nat" where
  "fresh_pk pks = Suc (fold max pks 0)"

text \<open>
  \<open>instance.save()\<close> updates the row carrying the instance's primary key and inserts the
  instance when there is no such row.
\<close>

definition save_Book :: "Book \<Rightarrow> Book list \<Rightarrow> Book list" where
  "save_Book b rows =
     (if \<exists>r \<in> set rows. book_pk r = book_pk b
      then map (\<lambda>r. if book_pk r = book_pk b then b else r) rows
      else rows @ [b])"

definition save_BorrowedBook :: "BorrowedBook \<Rightarrow> BorrowedBook list \<Rightarrow> BorrowedBook list" where
  "save_BorrowedBook l rows =
     (if \<exists>r \<in> set rows. loan_pk r = loan_pk l
      then map (\<lambda>r. if loan_pk r = loan_pk l then l else r) rows
      else rows @ [l])"

text \<open>
  \<open>BorrowedBook.objects.create(user=..., book=...)\<close>. The two timestamps come from two
  separate readings of the clock: \<open>due_date\<close> takes its default \<open>get_due_date()\<close> when the
  instance is constructed (reading \<open>t_init\<close>), \<open>borrowed_at\<close> is filled by
  \<open>auto_now_add\<close> when the instance is saved (reading \<open>t_save\<close>).
\<close>

definition BorrowedBook_create ::
  "int \<Rightarrow> int \<Rightarrow> nat \<Rightarrow> nat \<Rightarrow> BorrowedBook list \<Rightarrow> BorrowedBook" where
  "BorrowedBook_create t_init t_save u b rows =
     \<lparr>loan_pk = fresh_pk (map loan_pk rows), user_id = u, book_id = b,
      borrowed_at = t_save, due_date = get_due_date t_init, returned = False\<rparr>"

section \<open>Views (library/views.py)\<close>

datatype Response = Response (status: nat) (body_key: string) (body_text: string)

subsection \<open>Borrowing and returning\<close>

definition BorrowBookView_post ::
  "int \<Rightarrow> int \<Rightarrow> User \<Rightarrow> nat \<Rightarrow> database \<Rightarrow> Response \<times> database" where
  "BorrowBookView_post t_init t_save user bid s =
     (case objects_get (\<lambda>b. book_pk b = bid) (books s) of
        DoesNotExist \<Rightarrow> (Response 404 ''error'' ''Book not found'', s)
      | MultipleObjectsReturned \<Rightarrow> (Response 500 ''error'' ''Borrowing failed!'', s)
      | Found book \<Rightarrow>
          if available_copies book \<le> 0
          then (Response 400 ''error'' ''No copies available'', s)
          else
            let borrowed_book =
                  BorrowedBook_create t_init t_save (user_pk user) (book_pk book) (loans s);
                s1 = s\<lparr>loans := loans s @ [borrowed_book]\<rparr>;
                book' = book\<lparr>available_copies := available_copies book - 1\<rparr>;
                s2 = s1\<lparr>books := save_Book book' (books s1)\<rparr>
            in (Response 201 ''message'' ''Book borrowed successfully'', s2))"

definition ReturnBookView_post :: "User \<Rightarrow> nat \<Rightarrow> database \<Rightarrow> Response \<times> database" where
  "ReturnBookView_post user bid s =
     (case objects_get
             (\<lambda>l. book_id l = bid \<and> user_id l = user_pk user \<and> returned l = False)
             (loans s) of
        DoesNotExist \<Rightarrow> (Response 404 ''error'' ''Borrowed book not found'', s)
      | MultipleObjectsReturned \<Rightarrow> (Response 500 ''error'' ''Return failed!'', s)
      | Found borrowed_book \<Rightarrow>
          let borrowed_book' = borrowed_book\<lparr>returned := True\<rparr>;
              s1 = s\<lparr>loans := save_BorrowedBook borrowed_book' (loans s)\<rparr>
          in (case objects_get (\<lambda>b. book_pk b = book_id borrowed_book') (books s1) of
                Found book \<Rightarrow>
                  let book' = book\<lparr>available_copies := available_copies book + 1\<rparr>;
                      s2 = s1\<lparr>books := save_Book book' (books s1)\<rparr>
                  in (Response 200 ''message'' ''Book returned successfully'', s2)
              | _ \<Rightarrow> (Response 500 ''error'' ''Return failed!'', s1)))"

subsection \<open>Catalog management\<close>





section \<open>The overdue scan (library/tasks.py)\<close>

text \<open>Python's \<open>str\<close> on a non-negative integer.\<close>

fun str_nat :: "nat \<Rightarrow> string" where
  "str_nat n =
     (if n < 10 then [''0123456789'' ! n]
      else str_nat (n div 10) @ [''0123456789'' ! (n mod 10)])"

declare str_nat.simps [simp del]

text \<open>The queryset \<open>BorrowedBook.objects.filter(returned=False, due_date__lt=now)\<close>.\<close>

definition due_books :: "int \<Rightarrow> database \<Rightarrow> BorrowedBook list" where
  "due_books now s = filter (\<lambda>l. returned l = False \<and> due_date l < now) (loans s)"

text \<open>
  The loop body prints one line for a loan; \<open>book.book\<close> follows the foreign key and
  raises when it does not lead to exactly one book (\<open>None\<close> here).
\<close>

definition overdue_line :: "Book list \<Rightarrow> BorrowedBook \<Rightarrow> string option" where
  "overdue_line bs l =
     (case objects_get (\<lambda>b. book_pk b = book_id l) bs of
        Found b \<Rightarrow> Some (''Book '' @ [CHR 0x27] @ title b @ [CHR 0x27] @ '' is overdue!'')
      | _ \<Rightarrow> None)"

fun print_all :: "Book list \<Rightarrow> BorrowedBook list \<Rightarrow> string list option" where
  "print_all bs [] = Some []"
| "print_all bs (l # ls) =
     (case overdue_line bs l of
        None \<Rightarrow> None
      | Some line \<Rightarrow> map_option (Cons line) (print_all bs ls))"

text \<open>
  \<open>check_due_books\<close> with the reading of \<open>datetime.now()\<close> as its argument. The result
  is the printed lines and the returned message, or \<open>None\<close> when the loop raised; the
  database is handed back as the task leaves it.
\<close>

definition check_due_books ::
  "int \<Rightarrow> database \<Rightarrow> (string list \<times> string) option \<times> database" where
  "check_due_books now s =
     (case print_all (books s) (due_books now s) of
        None \<Rightarrow> (None, s)
      | Some printed \<Rightarrow>
          (Some (printed, str_nat (length (due_books now s)) @ '' overdue books found.''), s))"

section \<open>Sequences of requests (library/urls.py)\<close>

text \<open>
  The three routes of the loan workflow, each with the clock readings its handler takes,
  and the database after serving a list of requests one after the other.
\<close>

datatype request =
    Borrow int int User nat
  | Return User nat
  | ScanOverdue int

fun serve :: "request \<Rightarrow> database \<Rightarrow> database" where
  "serve (Borrow t_init t_save user bid) s = snd (BorrowBookView_post t_init t_save user bid s)"
| "serve (Return user bid) s = snd (ReturnBookView_post user bid s)"
| "serve (ScanOverdue now) s = snd (check_due_books now s)"

definition serve_all :: "request list \<Rightarrow> database \<Rightarrow> database" where
  "serve_all reqs s = fold serve reqs s"

section \<open>Inventory bookkeeping\<close>

text \<open>
  The number of loans on a book that have not been returned, and the conservation law of
  the ledger: every book's \<open>available_copies\<close> is its total number of copies less its
  active loans. The model has no column for the total, so it is a parameter.
\<close>

definition active_loans :: "database \<Rightarrow> nat \<Rightarrow> nat" where
  "active_loans s k = length (filter (\<lambda>l. book_id l = k \<and> returned l = False) (loans s))"

definition conserved :: "(nat \<Rightarrow> int) \<Rightarrow> database \<Rightarrow> bool" where
  "conserved total_copies s \<longleftrightarrow>
     (\<forall>b \<in> set (books s).
        available_copies b = total_copies (book_pk b) - int (active_loans s (book_pk b)))"


section \<open>A small library\<close>

text \<open>Concrete users, a book and a database on which the results below are exercised.\<close>

definition alice :: User where
  "alice = \<lparr>user_pk = 1, username = ''alice'', role = ''member''\<rparr>"

definition bob :: User where
  "bob = \<lparr>user_pk = 2, username = ''bob'', role = ''librarian''\<rparr>"

definition emma :: Book where
  "emma = \<lparr>book_pk = 1, title = ''Emma'', author = ''Austen'', isbn = ''9780141439587'',
            published_date = None, pages = 474, available_copies = 1\<rparr>"

definition shelf :: database where
  "shelf = \<lparr>books = [emma], loans = []\<rparr>"

definition loan1 :: BorrowedBook where
  "loan1 = \<lparr>loan_pk = 1, user_id = 1, book_id = 1, borrowed_at = 0,
             due_date = 1296000000000, returned = False\<rparr>"

definition lent :: database where
  "lent = \<lparr>books = [emma], loans = [loan1]\<rparr>"



section \<open>Lookups, keys and the two loan handlers\<close>

text \<open>
  What a lookup result says about the table, why a fresh key is fresh, and the shape of the
  database after each outcome of a borrow and of a return.
\<close>

lemma objects_get_DoesNotExist: "objects_get P rows = DoesNotExist \<longleftrightarrow> filter P rows = []"
  by (simp add: objects_get_def split: list.splits)

lemma objects_get_Found: "objects_get P rows = Found x \<longleftrightarrow> filter P rows = [x]"
  by (simp add: objects_get_def split: list.splits)

lemma filter_singleton_mem: "filter P rows = [x] \<Longrightarrow> x \<in> set rows \<and> P x"
proof -
  assume h: "filter P rows = [x]"
  have "x \<in> set (filter P rows)" by (simp add: h)
  then show ?thesis by simp
qed

lemma fold_max_ge: "a \<le> fold max pks (a::nat)"
  by (induction pks arbitrary: a) (auto intro: order_trans [OF max.cobounded2])

lemma fold_max_mem: "x \<in> set pks \<Longrightarrow> x \<le> fold max pks (a::nat)"
proof (induction pks arbitrary: a)
  case Nil
  then show ?case by simp
next
  case (Cons p pks)
  show ?case
  proof (cases "x = p")
    case True
    have "p \<le> max p a" by simp
    also have "\<dots> \<le> fold max pks (max p a)" by (rule fold_max_ge)
    finally show ?thesis using True by simp
  next
    case False
    with Cons show ?thesis by simp
  qed
qed

lemma fresh_pk_fresh: "fresh_pk pks \<notin> set pks"
  using fold_max_mem [of "fresh_pk pks" pks 0] by (auto simp: fresh_pk_def)


lemma Borrow_created:
  assumes "status (fst (BorrowBookView_post t_init t_save user bid s)) = 201"
  shows "\<exists>book. filter (\<lambda>b. book_pk b = bid) (books s) = [book]
    \<and> 0 < available_copies book
    \<and> BorrowBookView_post t_init t_save user bid s =
       (Response 201 ''message'' ''Book borrowed successfully'',
        \<lparr>books = map (\<lambda>r. if book_pk r = bid
                          then book\<lparr>available_copies := available_copies book - 1\<rparr> else r) (books s),
         loans = loans s @ [BorrowedBook_create t_init t_save (user_pk user) bid (loans s)]\<rparr>)"
proof (cases "objects_get (\<lambda>b. book_pk b = bid) (books s)")
  case DoesNotExist
  with assms show ?thesis by (simp add: BorrowBookView_post_def)
next
  case MultipleObjectsReturned
  with assms show ?thesis by (simp add: BorrowBookView_post_def)
next
  case (Found book)
  then have f: "filter (\<lambda>b. book_pk b = bid) (books s) = [book]"
    by (simp add: objects_get_Found)
  then have m: "book \<in> set (books s)" and k: "book_pk book = bid"
    using filter_singleton_mem [OF f] by auto
  from assms Found have pos: "0 < available_copies book"
    by (auto simp: BorrowBookView_post_def split: if_splits)
  have ex: "\<exists>r \<in> set (books s). book_pk r = bid" using m k by blast
  have "BorrowBookView_post t_init t_save user bid s =
       (Response 201 ''message'' ''Book borrowed successfully'',
        \<lparr>books = map (\<lambda>r. if book_pk r = bid
                          then book\<lparr>available_copies := available_copies book - 1\<rparr> else r) (books s),
         loans = loans s @ [BorrowedBook_create t_init t_save (user_pk user) bid (loans s)]\<rparr>)"
    using Found pos k ex by (simp add: BorrowBookView_post_def Let_def save_Book_def)
  with f pos show ?thesis by blast
qed

lemma Borrow_refused:
  assumes "status (fst (BorrowBookView_post t_init t_save user bid s)) \<noteq> 201"
  shows "snd (BorrowBookView_post t_init t_save user bid s) = s"
  using assms
  by (auto simp: BorrowBookView_post_def Let_def split: lookup.splits if_splits)

lemma Return_done:
  assumes "status (fst (ReturnBookView_post user bid s)) = 200"
  shows "\<exists>l book.
      filter (\<lambda>l. book_id l = bid \<and> user_id l = user_pk user \<and> returned l = False) (loans s) = [l]
    \<and> filter (\<lambda>b. book_pk b = bid) (books s) = [book]
    \<and> ReturnBookView_post user bid s =
       (Response 200 ''message'' ''Book returned successfully'',
        \<lparr>books = map (\<lambda>r. if book_pk r = bid
                          then book\<lparr>available_copies := available_copies book + 1\<rparr> else r) (books s),
         loans = map (\<lambda>r. if loan_pk r = loan_pk l then l\<lparr>returned := True\<rparr> else r) (loans s)\<rparr>)"
proof (cases "objects_get
    (\<lambda>l. book_id l = bid \<and> user_id l = user_pk user \<and> returned l = False) (loans s)")
  case DoesNotExist
  with assms show ?thesis by (simp add: ReturnBookView_post_def)
next
  case MultipleObjectsReturned
  with assms show ?thesis by (simp add: ReturnBookView_post_def)
next
  case (Found l)
  then have f: "filter (\<lambda>l. book_id l = bid \<and> user_id l = user_pk user \<and> returned l = False)
      (loans s) = [l]"
    by (simp add: objects_get_Found)
  have m: "l \<in> set (loans s)" and k: "book_id l = bid"
    using filter_singleton_mem [OF f] by auto
  have ex: "\<exists>r \<in> set (loans s). loan_pk r = loan_pk l" using m by blast
  show ?thesis
  proof (cases "objects_get (\<lambda>b. book_pk b = bid) (books s)")
    case (Found book)
    then have g: "filter (\<lambda>b. book_pk b = bid) (books s) = [book]"
      by (simp add: objects_get_Found)
    have bm: "book \<in> set (books s)" and bk: "book_pk book = bid"
      using filter_singleton_mem [OF g] by auto
    have bex: "\<exists>r \<in> set (books s). book_pk r = bid" using bm bk by blast
    have "ReturnBookView_post user bid s =
       (Response 200 ''message'' ''Book returned successfully'',
        \<lparr>books = map (\<lambda>r. if book_pk r = bid
                          then book\<lparr>available_copies := available_copies book + 1\<rparr> else r) (books s),
         loans = map (\<lambda>r. if loan_pk r = loan_pk l then l\<lparr>returned := True\<rparr> else r) (loans s)\<rparr>)"
      using \<open>objects_get (\<lambda>l. book_id l = bid \<and> user_id l = user_pk user \<and> returned l = False)
        (loans s) = Found l\<close> Found k ex bk bex
      by (simp add: ReturnBookView_post_def Let_def save_Book_def save_BorrowedBook_def)
    with f g show ?thesis by blast
  next
    case DoesNotExist
    with assms \<open>objects_get (\<lambda>l. book_id l = bid \<and> user_id l = user_pk user \<and> returned l = False)
        (loans s) = Found l\<close> k show ?thesis
      by (simp add: ReturnBookView_post_def Let_def)
  next
    case MultipleObjectsReturned
    with assms \<open>objects_get (\<lambda>l. book_id l = bid \<and> user_id l = user_pk user \<and> returned l = False)
        (loans s) = Found l\<close> k show ?thesis
      by (simp add: ReturnBookView_post_def Let_def)
  qed
qed

lemma filter_key_unique:
  "distinct (map f xs) \<Longrightarrow> x \<in> set xs \<Longrightarrow> filter (\<lambda>y. f y = f x) xs = [x]"
proof (induction xs)
  case Nil
  then show ?case by simp
next
  case (Cons a xs)
  show ?case
  proof (cases "a = x")
    case True
    with Cons.prems have "f x \<notin> f ` set xs" by simp
    then have "\<forall>y \<in> set xs. f y \<noteq> f x" by (metis imageI)
    then have "filter (\<lambda>y. f y = f x) xs = []"
      by (simp add: filter_empty_conv)
    with True show ?thesis by simp
  next
    case False
    with Cons.prems have m: "x \<in> set xs" and d: "distinct (map f xs)" and n: "f a \<notin> f ` set xs"
      by auto
    from m n have "f a \<noteq> f x" by auto
    with Cons.IH [OF d m] show ?thesis by simp
  qed
qed


lemma objects_get_by_key:
  "distinct (map f xs) \<Longrightarrow> x \<in> set xs \<Longrightarrow> objects_get (\<lambda>y. f y = f x) xs = Found x"
  by (simp add: objects_get_Found filter_key_unique)

lemma Borrow_available:
  assumes "distinct (map book_pk (books s))" and "book \<in> set (books s)"
    and "0 < available_copies book"
  shows "BorrowBookView_post t_init t_save user (book_pk book) s =
       (Response 201 ''message'' ''Book borrowed successfully'',
        \<lparr>books = map (\<lambda>r. if book_pk r = book_pk book
                          then book\<lparr>available_copies := available_copies book - 1\<rparr> else r) (books s),
         loans = loans s @ [BorrowedBook_create t_init t_save (user_pk user) (book_pk book) (loans s)]\<rparr>)"
proof -
  have g: "objects_get (\<lambda>b. book_pk b = book_pk book) (books s) = Found book"
    using assms(1,2) by (rule objects_get_by_key)
  have ex: "\<exists>r \<in> set (books s). book_pk r = book_pk book" using assms(2) by blast
  show ?thesis
    using g ex assms(3) by (simp add: BorrowBookView_post_def Let_def save_Book_def)
qed

lemma map_update_absent:
  "\<forall>r \<in> set xs. f r \<noteq> k \<Longrightarrow> map (\<lambda>r. if f r = k then y else r) xs = xs"
  by (induction xs) auto

lemma length_filter_update:
  assumes "distinct (map f xs)" and "x \<in> set xs"
  shows "length (filter P (map (\<lambda>r. if f r = f x then y else r) xs)) + (if P x then 1 else 0)
       = length (filter P xs) + (if P y then 1 else 0)"
  using assms
proof (induction xs)
  case Nil
  then show ?case by simp
next
  case (Cons a xs)
  show ?case
  proof (cases "a = x")
    case True
    with Cons.prems have "\<forall>r \<in> set xs. f r \<noteq> f x" by (metis distinct.simps(2) imageI list.simps(9) set_map)
    then have "map (\<lambda>r. if f r = f x then y else r) xs = xs" by (rule map_update_absent)
    with True show ?thesis by simp
  next
    case False
    with Cons.prems have m: "x \<in> set xs" and d: "distinct (map f xs)" by auto
    from Cons.prems m have "f a \<noteq> f x" by (metis distinct.simps(2) imageI list.simps(9) set_map)
    with Cons.IH [OF d m] show ?thesis by simp
  qed
qed

lemma active_loans_Borrow:
  assumes "status (fst (BorrowBookView_post t_init t_save user bid s)) = 201"
  shows "active_loans (snd (BorrowBookView_post t_init t_save user bid s)) k
       = active_loans s k + (if k = bid then 1 else 0)"
proof -
  from Borrow_created [OF assms] obtain book where
    "BorrowBookView_post t_init t_save user bid s =
       (Response 201 ''message'' ''Book borrowed successfully'',
        \<lparr>books = map (\<lambda>r. if book_pk r = bid
                          then book\<lparr>available_copies := available_copies book - 1\<rparr> else r) (books s),
         loans = loans s @ [BorrowedBook_create t_init t_save (user_pk user) bid (loans s)]\<rparr>)"
    by blast
  then show ?thesis
    by (auto simp: active_loans_def BorrowedBook_create_def)
qed

lemma active_loans_Return:
  assumes "distinct (map loan_pk (loans s))"
    and "status (fst (ReturnBookView_post user bid s)) = 200"
  shows "active_loans (snd (ReturnBookView_post user bid s)) k + (if k = bid then 1 else 0)
       = active_loans s k"
proof -
  from Return_done [OF assms(2)] obtain l book where
    f: "filter (\<lambda>l. book_id l = bid \<and> user_id l = user_pk user \<and> returned l = False) (loans s) = [l]"
    and r: "ReturnBookView_post user bid s =
       (Response 200 ''message'' ''Book returned successfully'',
        \<lparr>books = map (\<lambda>r. if book_pk r = bid
                          then book\<lparr>available_copies := available_copies book + 1\<rparr> else r) (books s),
         loans = map (\<lambda>r. if loan_pk r = loan_pk l then l\<lparr>returned := True\<rparr> else r) (loans s)\<rparr>)"
    by blast
  have m: "l \<in> set (loans s)" and p: "book_id l = bid" "returned l = False"
    using filter_singleton_mem [OF f] by auto
  show ?thesis
    using length_filter_update [OF assms(1) m,
        of "\<lambda>l. book_id l = k \<and> returned l = False" "l\<lparr>returned := True\<rparr>"] r p
    by (cases "k = bid") (simp_all add: active_loans_def)
qed

lemma Return_outcomes:
  "snd (ReturnBookView_post user bid s) = s
   \<or> (\<exists>l. l \<in> set (loans s) \<and> returned l = False
        \<and> loans (snd (ReturnBookView_post user bid s))
            = map (\<lambda>r. if loan_pk r = loan_pk l then l\<lparr>returned := True\<rparr> else r) (loans s)
        \<and> (books (snd (ReturnBookView_post user bid s)) = books s
            \<or> (\<exists>book. book \<in> set (books s)
                 \<and> books (snd (ReturnBookView_post user bid s))
                     = map (\<lambda>r. if book_pk r = book_pk book
                                 then book\<lparr>available_copies := available_copies book + 1\<rparr>
                                 else r) (books s))))"
proof (cases "objects_get
    (\<lambda>l. book_id l = bid \<and> user_id l = user_pk user \<and> returned l = False) (loans s)")
  case DoesNotExist
  then show ?thesis by (simp add: ReturnBookView_post_def)
next
  case MultipleObjectsReturned
  then show ?thesis by (simp add: ReturnBookView_post_def)
next
  case (Found l)
  then have f: "filter (\<lambda>l. book_id l = bid \<and> user_id l = user_pk user \<and> returned l = False)
      (loans s) = [l]"
    by (simp add: objects_get_Found)
  have m: "l \<in> set (loans s)" and nr: "returned l = False"
    using filter_singleton_mem [OF f] by auto
  have ex: "\<exists>r \<in> set (loans s). loan_pk r = loan_pk l" using m by blast
  show ?thesis
  proof (cases "objects_get (\<lambda>b. book_pk b = book_id l) (books s)")
    case (Found book)
    then have g: "filter (\<lambda>b. book_pk b = book_id l) (books s) = [book]"
      by (simp add: objects_get_Found)
    have bm: "book \<in> set (books s)" and bk: "book_pk book = book_id l"
      using filter_singleton_mem [OF g] by auto
    have bex: "\<exists>r \<in> set (books s). book_pk r = book_pk book" using bm by blast
    have "loans (snd (ReturnBookView_post user bid s))
            = map (\<lambda>r. if loan_pk r = loan_pk l then l\<lparr>returned := True\<rparr> else r) (loans s)"
      and "books (snd (ReturnBookView_post user bid s))
            = map (\<lambda>r. if book_pk r = book_pk book
                        then book\<lparr>available_copies := available_copies book + 1\<rparr>
                        else r) (books s)"
      using \<open>objects_get (\<lambda>l. book_id l = bid \<and> user_id l = user_pk user \<and> returned l = False)
        (loans s) = Found l\<close> Found ex bex
      by (simp_all add: ReturnBookView_post_def Let_def save_Book_def save_BorrowedBook_def)
    with m nr bm show ?thesis by blast
  next
    case DoesNotExist
    with \<open>objects_get (\<lambda>l. book_id l = bid \<and> user_id l = user_pk user \<and> returned l = False)
        (loans s) = Found l\<close> ex
    have "loans (snd (ReturnBookView_post user bid s))
            = map (\<lambda>r. if loan_pk r = loan_pk l then l\<lparr>returned := True\<rparr> else r) (loans s)"
      and "books (snd (ReturnBookView_post user bid s)) = books s"
      by (simp_all add: ReturnBookView_post_def Let_def save_BorrowedBook_def)
    with m nr show ?thesis by blast
  next
    case MultipleObjectsReturned
    with \<open>objects_get (\<lambda>l. book_id l = bid \<and> user_id l = user_pk user \<and> returned l = False)
        (loans s) = Found l\<close> ex
    have "loans (snd (ReturnBookView_post user bid s))
            = map (\<lambda>r. if loan_pk r = loan_pk l then l\<lparr>returned := True\<rparr> else r) (loans s)"
      and "books (snd (ReturnBookView_post user bid s)) = books s"
      by (simp_all add: ReturnBookView_post_def Let_def save_BorrowedBook_def)
    with m nr show ?thesis by blast
  qed
qed

lemma Borrow_outcomes:
  "snd (BorrowBookView_post t_init t_save user bid s) = s
   \<or> (\<exists>book. book \<in> set (books s) \<and> 0 < available_copies book
        \<and> books (snd (BorrowBookView_post t_init t_save user bid s))
            = map (\<lambda>r. if book_pk r = bid
                        then book\<lparr>available_copies := available_copies book - 1\<rparr> else r) (books s)
        \<and> loans (snd (BorrowBookView_post t_init t_save user bid s))
            = loans s @ [BorrowedBook_create t_init t_save (user_pk user) bid (loans s)])"
proof (cases "status (fst (BorrowBookView_post t_init t_save user bid s)) = 201")
  case True
  from Borrow_created [OF True] obtain book where
    f: "filter (\<lambda>b. book_pk b = bid) (books s) = [book]" and p: "0 < available_copies book"
    and r: "BorrowBookView_post t_init t_save user bid s =
       (Response 201 ''message'' ''Book borrowed successfully'',
        \<lparr>books = map (\<lambda>r. if book_pk r = bid
                          then book\<lparr>available_copies := available_copies book - 1\<rparr> else r) (books s),
         loans = loans s @ [BorrowedBook_create t_init t_save (user_pk user) bid (loans s)]\<rparr>)"
    by blast
  have "book \<in> set (books s)" using filter_singleton_mem [OF f] by simp
  with p r show ?thesis by auto
next
  case False
  then show ?thesis by (simp add: Borrow_refused)
qed

lemma check_due_books_state: "snd (check_due_books now s) = s"
  by (simp add: check_due_books_def split: option.splits)

text \<open>One request keeps the counts non-negative.\<close>

lemma serve_nonneg:
  assumes "\<forall>b \<in> set (books s). 0 \<le> available_copies b"
  shows "\<forall>b \<in> set (books (serve r s)). 0 \<le> available_copies b"
proof (cases r)
  case (Borrow t_init t_save user bid)
  from Borrow_outcomes [of t_init t_save user bid s] assms Borrow show ?thesis
    by (auto split: if_splits)
next
  case (Return user bid)
  from Return_outcomes [of user bid s] assms Return show ?thesis
    by (auto split: if_splits)
next
  case (ScanOverdue now)
  with assms show ?thesis by (simp add: check_due_books_state)
qed






text \<open>A return that finds its loan, and the round trip of a first loan.\<close>

lemma filter_key_update:
  "filter (\<lambda>b. f b = k) xs = [x] \<Longrightarrow> f y = k \<Longrightarrow>
   filter (\<lambda>b. f b = k) (map (\<lambda>r. if f r = k then y else r) xs) = [y]"
proof (induction xs)
  case Nil
  then show ?case by simp
next
  case (Cons a xs)
  show ?case
  proof (cases "f a = k")
    case True
    with Cons.prems(1) have "filter (\<lambda>b. f b = k) xs = []" by simp
    then have n: "\<forall>r \<in> set xs. f r \<noteq> k" by (simp add: filter_empty_conv)
    then have "map (\<lambda>r. if f r = k then y else r) xs = xs" by (rule map_update_absent)
    with True n Cons.prems(2) show ?thesis by (simp add: filter_empty_conv)
  next
    case False
    with Cons.prems(1) have "filter (\<lambda>b. f b = k) xs = [x]" by simp
    from Cons.IH [OF this Cons.prems(2)] False show ?thesis by simp
  qed
qed

lemma map_update_back:
  assumes "filter (\<lambda>b. f b = k) xs = [x]" and "f y = k"
  shows "map (\<lambda>r. if f r = k then x else r) (map (\<lambda>r. if f r = k then y else r) xs) = xs"
proof -
  have "\<And>r. r \<in> set xs \<Longrightarrow> f r = k \<Longrightarrow> r = x"
  proof -
    fix r assume "r \<in> set xs" and "f r = k"
    then have "r \<in> set (filter (\<lambda>b. f b = k) xs)" by simp
    with assms(1) show "r = x" by simp
  qed
  with assms(2) show ?thesis by (simp add: map_idI)
qed

lemma Return_active:
  assumes f: "filter (\<lambda>l. book_id l = bid \<and> user_id l = user_pk user \<and> returned l = False)
      (loans s) = [l]"
    and g: "filter (\<lambda>b. book_pk b = bid) (books s) = [book]"
  shows "ReturnBookView_post user bid s =
       (Response 200 ''message'' ''Book returned successfully'',
        \<lparr>books = map (\<lambda>r. if book_pk r = bid
                          then book\<lparr>available_copies := available_copies book + 1\<rparr> else r) (books s),
         loans = map (\<lambda>r. if loan_pk r = loan_pk l then l\<lparr>returned := True\<rparr> else r) (loans s)\<rparr>)"
proof -
  have m: "l \<in> set (loans s)" and k: "book_id l = bid"
    using filter_singleton_mem [OF f] by auto
  have bm: "book \<in> set (books s)" and bk: "book_pk book = bid"
    using filter_singleton_mem [OF g] by auto
  have ex: "\<exists>r \<in> set (loans s). loan_pk r = loan_pk l" using m by blast
  have bex: "\<exists>r \<in> set (books s). book_pk r = bid" using bm bk by blast
  have g1: "objects_get (\<lambda>l. book_id l = bid \<and> user_id l = user_pk user \<and> returned l = False)
      (loans s) = Found l"
    using f by (simp add: objects_get_Found)
  have g2: "objects_get (\<lambda>b. book_pk b = bid) (books s) = Found book"
    using g by (simp add: objects_get_Found)
  show ?thesis
    using g1 g2 k ex bk bex
    by (simp add: ReturnBookView_post_def Let_def save_Book_def save_BorrowedBook_def)
qed

lemma round_trip_first_loan:
  assumes ok: "status (fst (BorrowBookView_post t_init t_save user bid s)) = 201"
    and none: "\<forall>l \<in> set (loans s).
        \<not> (book_id l = bid \<and> user_id l = user_pk user \<and> returned l = False)"
  shows "fst (ReturnBookView_post user bid (snd (BorrowBookView_post t_init t_save user bid s)))
           = Response 200 ''message'' ''Book returned successfully''
       \<and> books (snd (ReturnBookView_post user bid
                       (snd (BorrowBookView_post t_init t_save user bid s)))) = books s"
proof -
  define new where "new = BorrowedBook_create t_init t_save (user_pk user) bid (loans s)"
  from Borrow_created [OF ok] obtain book where
    f: "filter (\<lambda>b. book_pk b = bid) (books s) = [book]"
    and r: "BorrowBookView_post t_init t_save user bid s =
       (Response 201 ''message'' ''Book borrowed successfully'',
        \<lparr>books = map (\<lambda>r. if book_pk r = bid
                          then book\<lparr>available_copies := available_copies book - 1\<rparr> else r) (books s),
         loans = loans s @ [new]\<rparr>)"
    unfolding new_def by blast
  define less where "less = book\<lparr>available_copies := available_copies book - 1\<rparr>"
  define s1 where "s1 = snd (BorrowBookView_post t_init t_save user bid s)"
  have b1: "books s1 = map (\<lambda>r. if book_pk r = bid then less else r) (books s)"
    and l1: "loans s1 = loans s @ [new]"
    by (simp_all add: s1_def r less_def)
  have k: "book_pk book = bid" using filter_singleton_mem [OF f] by simp
  then have kl: "book_pk less = bid" by (simp add: less_def)
  have inc: "less\<lparr>available_copies := available_copies less + 1\<rparr> = book"
    by (simp add: less_def)
  have q: "book_id new = bid \<and> user_id new = user_pk user \<and> returned new = False"
    by (simp add: new_def BorrowedBook_create_def)
  from none have "filter (\<lambda>l. book_id l = bid \<and> user_id l = user_pk user \<and> returned l = False)
      (loans s) = []"
    by (simp add: filter_empty_conv)
  with q have f1: "filter (\<lambda>l. book_id l = bid \<and> user_id l = user_pk user \<and> returned l = False)
      (loans s1) = [new]"
    by (simp add: l1)
  have g1: "filter (\<lambda>b. book_pk b = bid) (books s1) = [less]"
    unfolding b1 using f kl by (rule filter_key_update)
  have restore: "map (\<lambda>r. if book_pk r = bid then book else r) (books s1) = books s"
    unfolding b1 using f kl by (rule map_update_back)
  have "ReturnBookView_post user bid s1 =
       (Response 200 ''message'' ''Book returned successfully'',
        \<lparr>books = books s,
         loans = map (\<lambda>r. if loan_pk r = loan_pk new then new\<lparr>returned := True\<rparr> else r)
                   (loans s1)\<rparr>)"
    using Return_active [OF f1 g1] unfolding inc restore .
  then show ?thesis
    unfolding s1_def [symmetric] by simp
qed

section \<open>Error paths of the loan handlers\<close>

text \<open>
  C3. Borrow answers 404 "Book not found" when no book has the requested key, and 400
  "No copies available" (the spec's Conflict) when the book's \<open>available_copies\<close> is
  at most 0. On these and on every other response than 201 the database is handed back
  as it was: no loan is created and no count is changed.
\<close>

theorem Borrow_errors:
  "((\<forall>b \<in> set (books s). book_pk b \<noteq> bid) \<longrightarrow>
      BorrowBookView_post t_init t_save user bid s =
        (Response 404 ''error'' ''Book not found'', s))
   \<and> (\<forall>book. distinct (map book_pk (books s)) \<and> book \<in> set (books s) \<and> book_pk book = bid
          \<and> available_copies book \<le> 0 \<longrightarrow>
      BorrowBookView_post t_init t_save user bid s =
        (Response 400 ''error'' ''No copies available'', s))
   \<and> (status (fst (BorrowBookView_post t_init t_save user bid s)) \<noteq> 201 \<longrightarrow>
      snd (BorrowBookView_post t_init t_save user bid s) = s)"
proof (intro conjI impI allI)
  assume "\<forall>b \<in> set (books s). book_pk b \<noteq> bid"
  then have "filter (\<lambda>b. book_pk b = bid) (books s) = []"
    by (simp add: filter_empty_conv)
  then show "BorrowBookView_post t_init t_save user bid s =
        (Response 404 ''error'' ''Book not found'', s)"
    by (simp add: BorrowBookView_post_def objects_get_def)
next
  fix book
  assume a: "distinct (map book_pk (books s)) \<and> book \<in> set (books s) \<and> book_pk book = bid
          \<and> available_copies book \<le> 0"
  then have d: "distinct (map book_pk (books s))" and m: "book \<in> set (books s)"
    and k: "book_pk book = bid"
    by simp_all
  have "filter (\<lambda>b. book_pk b = book_pk book) (books s) = [book]"
    using d m by (rule filter_key_unique)
  then have "objects_get (\<lambda>b. book_pk b = bid) (books s) = Found book"
    unfolding k by (simp add: objects_get_Found)
  with a show "BorrowBookView_post t_init t_save user bid s =
        (Response 400 ''error'' ''No copies available'', s)"
    by (simp add: BorrowBookView_post_def)
next
  assume "status (fst (BorrowBookView_post t_init t_save user bid s)) \<noteq> 201"
  then show "snd (BorrowBookView_post t_init t_save user bid s) = s"
    by (rule Borrow_refused)
qed

theorem Borrow_errors_witness:
  "BorrowBookView_post 0 1 alice 7 shelf = (Response 404 ''error'' ''Book not found'', shelf)
   \<and> BorrowBookView_post 0 1 alice 1 (shelf\<lparr>books := [emma\<lparr>available_copies := 0\<rparr>]\<rparr>) =
       (Response 400 ''error'' ''No copies available'', shelf\<lparr>books := [emma\<lparr>available_copies := 0\<rparr>]\<rparr>)
   \<and> snd (BorrowBookView_post 0 1 alice 7 shelf) = shelf"
  using Borrow_errors [of shelf 7 0 1 alice]
    Borrow_errors [of "shelf\<lparr>books := [emma\<lparr>available_copies := 0\<rparr>]\<rparr>" 1 0 1 alice]
  by (simp add: shelf_def emma_def)



section \<open>Creating a loan\<close>

text \<open>
  C2 as the specification states it: the due date of a new loan is its \<open>borrowed_at\<close>
  plus exactly 15 days. The two columns are filled from two readings of the clock, so the
  equation fails as soon as the readings differ, here by one microsecond.
\<close>

theorem due_date_counterexample:
  "status (fst (BorrowBookView_post 0 1 alice 1 shelf)) = 201
   \<and> due_date (last (loans (snd (BorrowBookView_post 0 1 alice 1 shelf))))
       \<noteq> borrowed_at (last (loans (snd (BorrowBookView_post 0 1 alice 1 shelf))))
           + timedelta_days 15"
  by (simp add: BorrowBookView_post_def objects_get_def shelf_def emma_def alice_def
      save_Book_def BorrowedBook_create_def get_due_date_def Let_def)


text \<open>
  C2, amended. The loan created by a successful borrow has \<open>due_date\<close> equal to the
  clock reading taken by \<open>get_due_date\<close> plus exactly 15 days, and \<open>borrowed_at\<close> equal to
  the reading taken when the row is saved. Hence \<open>due_date = borrowed_at + 15 days\<close>
  holds exactly when the two readings coincide, and \<open>due_date\<close> is at most
  \<open>borrowed_at + 15 days\<close> when the clock has not gone backwards in between.
\<close>

theorem due_date_at_creation:
  assumes "status (fst (BorrowBookView_post t_init t_save user bid s)) = 201"
  shows "\<exists>l. loans (snd (BorrowBookView_post t_init t_save user bid s)) = loans s @ [l]
     \<and> due_date l = t_init + timedelta_days 15
     \<and> borrowed_at l = t_save
     \<and> (due_date l = borrowed_at l + timedelta_days 15 \<longleftrightarrow> t_init = t_save)
     \<and> (t_init \<le> t_save \<longrightarrow> due_date l \<le> borrowed_at l + timedelta_days 15)"
proof -
  from Borrow_created [OF assms] obtain book where
    "BorrowBookView_post t_init t_save user bid s =
       (Response 201 ''message'' ''Book borrowed successfully'',
        \<lparr>books = map (\<lambda>r. if book_pk r = bid
                          then book\<lparr>available_copies := available_copies book - 1\<rparr> else r) (books s),
         loans = loans s @ [BorrowedBook_create t_init t_save (user_pk user) bid (loans s)]\<rparr>)"
    by blast
  then have "loans (snd (BorrowBookView_post t_init t_save user bid s)) =
      loans s @ [BorrowedBook_create t_init t_save (user_pk user) bid (loans s)]"
    by simp
  then show ?thesis
    by (simp add: BorrowedBook_create_def get_due_date_def)
qed

theorem due_date_at_creation_witness:
  "status (fst (BorrowBookView_post 0 1 alice 1 shelf)) = 201
   \<and> (\<exists>l. loans (snd (BorrowBookView_post 0 1 alice 1 shelf)) = loans shelf @ [l]
     \<and> due_date l = 0 + timedelta_days 15
     \<and> borrowed_at l = 1
     \<and> (due_date l = borrowed_at l + timedelta_days 15 \<longleftrightarrow> (0::int) = 1)
     \<and> ((0::int) \<le> 1 \<longrightarrow> due_date l \<le> borrowed_at l + timedelta_days 15))"
proof -
  have h: "status (fst (BorrowBookView_post 0 1 alice 1 shelf)) = 201"
    by (simp add: BorrowBookView_post_def objects_get_def shelf_def emma_def Let_def)
  show ?thesis using h due_date_at_creation [OF h] by blast
qed

text \<open>
  C10. Borrow has no check on the (user, book) pair: when the user already holds an
  active loan on a book that still has a copy available, a further borrow answers 201 and
  appends a second active loan of the same user on the same book, under a new key, next to
  the first one.
\<close>

theorem Borrow_same_book_again:
  assumes "distinct (map book_pk (books s))" and "book \<in> set (books s)"
    and "0 < available_copies book"
    and "l \<in> set (loans s)" and "book_id l = book_pk book" and "user_id l = user_pk user"
    and "returned l = False"
  shows "\<exists>l'. BorrowBookView_post t_init t_save user (book_pk book) s =
        (Response 201 ''message'' ''Book borrowed successfully'',
         snd (BorrowBookView_post t_init t_save user (book_pk book) s))
    \<and> loans (snd (BorrowBookView_post t_init t_save user (book_pk book) s)) = loans s @ [l']
    \<and> loan_pk l' \<noteq> loan_pk l
    \<and> book_id l' = book_pk book \<and> user_id l' = user_pk user \<and> returned l' = False
    \<and> l \<in> set (loans (snd (BorrowBookView_post t_init t_save user (book_pk book) s)))"
proof -
  let ?l' = "BorrowedBook_create t_init t_save (user_pk user) (book_pk book) (loans s)"
  have "loan_pk ?l' \<notin> set (map loan_pk (loans s))"
    unfolding BorrowedBook_create_def by (simp del: set_map add: fresh_pk_fresh)
  with assms(4) have "loan_pk ?l' \<noteq> loan_pk l" by auto
  moreover have "book_id ?l' = book_pk book \<and> user_id ?l' = user_pk user \<and> returned ?l' = False"
    by (simp add: BorrowedBook_create_def)
  ultimately show ?thesis
    using Borrow_available [OF assms(1-3), of t_init t_save user] assms(4)
    by (intro exI [of _ ?l']) simp
qed

theorem Borrow_same_book_again_witness:
  "distinct (map book_pk (books lent)) \<and> emma \<in> set (books lent) \<and> 0 < available_copies emma
   \<and> loan1 \<in> set (loans lent) \<and> book_id loan1 = book_pk emma \<and> user_id loan1 = user_pk alice
   \<and> returned loan1 = False
   \<and> (\<exists>l'. BorrowBookView_post 5 6 alice (book_pk emma) lent =
        (Response 201 ''message'' ''Book borrowed successfully'',
         snd (BorrowBookView_post 5 6 alice (book_pk emma) lent))
    \<and> loans (snd (BorrowBookView_post 5 6 alice (book_pk emma) lent)) = loans lent @ [l']
    \<and> loan_pk l' \<noteq> loan_pk loan1
    \<and> book_id l' = book_pk emma \<and> user_id l' = user_pk alice \<and> returned l' = False
    \<and> loan1 \<in> set (loans (snd (BorrowBookView_post 5 6 alice (book_pk emma) lent))))"
proof -
  have h: "distinct (map book_pk (books lent))" "emma \<in> set (books lent)"
    "0 < available_copies emma" "loan1 \<in> set (loans lent)" "book_id loan1 = book_pk emma"
    "user_id loan1 = user_pk alice" "returned loan1 = False"
    by (simp_all add: lent_def emma_def loan1_def alice_def)
  show ?thesis
    using h Borrow_same_book_again [OF h, of 5 6] by blast
qed

section \<open>Catalog permissions\<close>



section \<open>Invariants of the ledger\<close>

text \<open>
  C1. Inventory conservation. Let every loan have its own key and let every book's
  \<open>available_copies\<close> equal its total number of copies less the number of its loans with
  \<open>returned = False\<close>. Then the same holds after a successful borrow (201) and after a
  successful return (200): the borrow adds one active loan on the book and takes one from
  its count, the return takes one active loan away and adds one to the count.
\<close>

theorem inventory_conserved:
  assumes "distinct (map loan_pk (loans s))" and "conserved total_copies s"
  shows "(status (fst (BorrowBookView_post t_init t_save user bid s)) = 201 \<longrightarrow>
           conserved total_copies (snd (BorrowBookView_post t_init t_save user bid s))
         \<and> active_loans (snd (BorrowBookView_post t_init t_save user bid s)) bid
             = active_loans s bid + 1)
       \<and> (status (fst (ReturnBookView_post user bid s)) = 200 \<longrightarrow>
           conserved total_copies (snd (ReturnBookView_post user bid s))
         \<and> active_loans (snd (ReturnBookView_post user bid s)) bid + 1 = active_loans s bid)"
proof (intro conjI impI)
  assume ok: "status (fst (BorrowBookView_post t_init t_save user bid s)) = 201"
  let ?s' = "snd (BorrowBookView_post t_init t_save user bid s)"
  from Borrow_created [OF ok] obtain book where
    f: "filter (\<lambda>b. book_pk b = bid) (books s) = [book]"
    and r: "BorrowBookView_post t_init t_save user bid s =
       (Response 201 ''message'' ''Book borrowed successfully'',
        \<lparr>books = map (\<lambda>r. if book_pk r = bid
                          then book\<lparr>available_copies := available_copies book - 1\<rparr> else r) (books s),
         loans = loans s @ [BorrowedBook_create t_init t_save (user_pk user) bid (loans s)]\<rparr>)"
    by blast
  have m: "book \<in> set (books s)" and k: "book_pk book = bid"
    using filter_singleton_mem [OF f] by auto
  have a: "\<And>k. active_loans ?s' k = active_loans s k + (if k = bid then 1 else 0)"
    by (rule active_loans_Borrow [OF ok])
  show "active_loans ?s' bid = active_loans s bid + 1" by (simp add: a)
  show "conserved total_copies ?s'"
    unfolding conserved_def
  proof
    fix b' assume "b' \<in> set (books ?s')"
    with r obtain b where b: "b \<in> set (books s)"
      and b': "b' = (if book_pk b = bid
                     then book\<lparr>available_copies := available_copies book - 1\<rparr> else b)"
      by auto
    from assms(2) b m have
      c: "available_copies b = total_copies (book_pk b) - int (active_loans s (book_pk b))"
      and cb: "available_copies book = total_copies (book_pk book) - int (active_loans s (book_pk book))"
      by (simp_all add: conserved_def)
    show "available_copies b' = total_copies (book_pk b') - int (active_loans ?s' (book_pk b'))"
      using b' c cb k by (simp add: a)
  qed
next
  assume ok: "status (fst (ReturnBookView_post user bid s)) = 200"
  let ?s' = "snd (ReturnBookView_post user bid s)"
  from Return_done [OF ok] obtain l book where
    g: "filter (\<lambda>b. book_pk b = bid) (books s) = [book]"
    and r: "ReturnBookView_post user bid s =
       (Response 200 ''message'' ''Book returned successfully'',
        \<lparr>books = map (\<lambda>r. if book_pk r = bid
                          then book\<lparr>available_copies := available_copies book + 1\<rparr> else r) (books s),
         loans = map (\<lambda>r. if loan_pk r = loan_pk l then l\<lparr>returned := True\<rparr> else r) (loans s)\<rparr>)"
    by blast
  have m: "book \<in> set (books s)" and k: "book_pk book = bid"
    using filter_singleton_mem [OF g] by auto
  have a: "\<And>k. active_loans ?s' k + (if k = bid then 1 else 0) = active_loans s k"
    by (rule active_loans_Return [OF assms(1) ok])
  show "active_loans ?s' bid + 1 = active_loans s bid" using a [of bid] by simp
  show "conserved total_copies ?s'"
    unfolding conserved_def
  proof
    fix b' assume "b' \<in> set (books ?s')"
    with r obtain b where b: "b \<in> set (books s)"
      and b': "b' = (if book_pk b = bid
                     then book\<lparr>available_copies := available_copies book + 1\<rparr> else b)"
      by auto
    from assms(2) b m have
      c: "available_copies b = total_copies (book_pk b) - int (active_loans s (book_pk b))"
      and cb: "available_copies book = total_copies (book_pk book) - int (active_loans s (book_pk book))"
      by (simp_all add: conserved_def)
    show "available_copies b' = total_copies (book_pk b') - int (active_loans ?s' (book_pk b'))"
      using b' c cb k a [of bid] a [of "book_pk b"] by (simp split: if_splits)
  qed
qed

theorem inventory_conserved_witness:
  "distinct (map loan_pk (loans lent)) \<and> conserved (\<lambda>k. 2) lent
   \<and> status (fst (BorrowBookView_post 5 6 alice 1 lent)) = 201
   \<and> conserved (\<lambda>k. 2) (snd (BorrowBookView_post 5 6 alice 1 lent))
   \<and> active_loans (snd (BorrowBookView_post 5 6 alice 1 lent)) 1 = active_loans lent 1 + 1
   \<and> status (fst (ReturnBookView_post alice 1 lent)) = 200
   \<and> conserved (\<lambda>k. 2) (snd (ReturnBookView_post alice 1 lent))
   \<and> active_loans (snd (ReturnBookView_post alice 1 lent)) 1 + 1 = active_loans lent 1"
proof -
  have h: "distinct (map loan_pk (loans lent))" "conserved (\<lambda>k. 2) lent"
    by (simp_all add: lent_def loan1_def emma_def conserved_def active_loans_def)
  have b: "status (fst (BorrowBookView_post 5 6 alice 1 lent)) = 201"
    by (simp add: BorrowBookView_post_def objects_get_def lent_def emma_def Let_def)
  have r: "status (fst (ReturnBookView_post alice 1 lent)) = 200"
    by (simp add: ReturnBookView_post_def objects_get_def lent_def emma_def loan1_def
        alice_def save_BorrowedBook_def Let_def)
  show ?thesis
    using h b r inventory_conserved [OF h, of 5 6 alice 1] by blast
qed

text \<open>
  C7. Non-negativity. If no book has a negative \<open>available_copies\<close>, none has after any
  sequence of borrow, return and overdue-scan requests served one after the other.
\<close>

theorem available_copies_nonneg:
  assumes "\<forall>b \<in> set (books s). 0 \<le> available_copies b"
  shows "\<forall>b \<in> set (books (serve_all reqs s)). 0 \<le> available_copies b"
  using assms unfolding serve_all_def
proof (induction reqs arbitrary: s)
  case Nil
  then show ?case by simp
next
  case (Cons r reqs)
  from Cons.prems have "\<forall>b \<in> set (books (serve r s)). 0 \<le> available_copies b"
    by (rule serve_nonneg)
  then have "\<forall>b \<in> set (books (fold serve reqs (serve r s))). 0 \<le> available_copies b"
    by (rule Cons.IH)
  then show ?case by simp
qed

theorem available_copies_nonneg_witness:
  "list_all (\<lambda>b. 0 \<le> available_copies b) (books lent)
   \<and> list_all (\<lambda>b. 0 \<le> available_copies b)
        (books (serve_all [Borrow 5 6 alice 1, Borrow 7 8 bob 1, ScanOverdue 9, Return alice 1]
                  lent))"
proof -
  have h: "\<forall>b \<in> set (books lent). 0 \<le> available_copies b"
    by (simp add: lent_def emma_def)
  show ?thesis
    using h available_copies_nonneg [OF h,
        of "[Borrow 5 6 alice 1, Borrow 7 8 bob 1, ScanOverdue 9, Return alice 1]"]
    by (simp add: list_all_iff)
qed



section \<open>Borrow followed by return\<close>

text \<open>
  C6. A successful borrow followed at once by a return of the same book by the same user
  should bring \<open>available_copies\<close> back to its value before the borrow. It does when the
  user held no active loan on the book before (\<open>round_trip_first_loan\<close>). When the user
  already held one, the borrow still succeeds, but the return then finds two active loans,
  its single-row lookup raises \<open>MultipleObjectsReturned\<close> and the handler answers 500
  "Return failed!" without touching the database: the count stays one below its value
  before the borrow.
\<close>

theorem round_trip_stuck_on_second_loan:
  "fst (BorrowBookView_post 5 6 alice 1 lent) =
     Response 201 ''message'' ''Book borrowed successfully''
   \<and> fst (ReturnBookView_post alice 1 (snd (BorrowBookView_post 5 6 alice 1 lent))) =
     Response 500 ''error'' ''Return failed!''
   \<and> map available_copies (books lent) = [1]
   \<and> map available_copies
       (books (snd (ReturnBookView_post alice 1 (snd (BorrowBookView_post 5 6 alice 1 lent)))))
     = [0]"
  by (simp add: BorrowBookView_post_def ReturnBookView_post_def objects_get_def lent_def
      emma_def loan1_def alice_def save_Book_def BorrowedBook_create_def Let_def)

section \<open>The overdue scan\<close>



end
